theory Spec2Isabelle
  imports Main "HOL-Library.Word" "HOL-Library.Char_ord" "HOL-Library.List_Lexorder" "HOL-Library.AList"
begin

section \<open>Data model\<close>

text \<open>
  The marshaling code of \<^verbatim>\<open>pkg/resource/plugin/rpc.go\<close> converts between the engine's
  property model (package \<^verbatim>\<open>resource\<close>) and the protobuf \<^verbatim>\<open>structpb\<close> document shape.

  A \<^verbatim>\<open>float64\<close> is only ever copied, never computed with, so it is carried as its 64-bit
  IEEE-754 pattern. Go strings are byte sequences, as \<^typ>\<open>string\<close> is.

  A Go map is represented by the list of its entries; the operations on it are lookup
  (\<open>map_index\<close>, giving the zero value of the element type for a missing key) and assignment
  (\<^const>\<open>AList.update\<close>, which replaces the entry of a present key and appends the entry of
  a new one). A Go map has each key once and no order: the list that stands for it has
  distinct keys, and the list with strictly increasing keys is its canonical representative.
  A nil slice and an empty slice are both \<open>[]\<close>.
\<close>

type_synonym float64 = "64 word"

text \<open>
  The weakly typed \<^verbatim>\<open>map[string]interface{}\<close> trees that \<^verbatim>\<open>Serialize\<close> produces and the
  recognizers inspect: nil, bool, float64, string, \<^verbatim>\<open>[]interface{}\<close> and nested maps.
\<close>

datatype plain =
    PlainNil
  | PlainBool bool
  | PlainNumber float64
  | PlainString string
  | PlainArray "plain list"
  | PlainMap "(string \<times> plain) list"

text \<open>
  Modelled from the spec: the type \<^verbatim>\<open>resource.PropertyValue\<close> is declared in package
  \<^verbatim>\<open>resource\<close>, which is not part of the sources. Section 3: a closed tagged variant, exactly
  one of null, bool, number, string, array, object, asset, archive, computed and output,
  the last two carrying an inner element. There is one constructor for each \<^verbatim>\<open>Is...\<close> test
  of \<^verbatim>\<open>MarshalPropertyValue\<close>, named after the constructor function that \<^verbatim>\<open>rpc.go\<close> calls, so
  the final \<^verbatim>\<open>contract.Failf\<close> of \<^verbatim>\<open>MarshalPropertyValue\<close> for a value of no known variant
  has no input. The types of assets and archives are the parameters \<open>'a\<close> and \<open>'r\<close>. The
  zero \<^verbatim>\<open>PropertyValue{}\<close>, which indexing a map at a missing key gives, is the null property.
\<close>

datatype ('a, 'r) PropertyValue =
    NewNullProperty
  | NewBoolProperty bool
  | NewNumberProperty float64
  | NewStringProperty string
  | NewArrayProperty "('a, 'r) PropertyValue list"
  | NewAssetProperty 'a
  | NewArchiveProperty 'r
  | NewObjectProperty "(string \<times> ('a, 'r) PropertyValue) list"
  | NewComputedProperty "('a, 'r) PropertyValue"
  | NewOutputProperty "('a, 'r) PropertyValue"

type_synonym ('a, 'r) PropertyMap = "(string \<times> ('a, 'r) PropertyValue) list"

fun IsNull :: "('a, 'r) PropertyValue \<Rightarrow> bool" where
  "IsNull NewNullProperty = True"
| "IsNull _ = False"

fun IsComputed :: "('a, 'r) PropertyValue \<Rightarrow> bool" where
  "IsComputed (NewComputedProperty _) = True"
| "IsComputed _ = False"

fun IsOutput :: "('a, 'r) PropertyValue \<Rightarrow> bool" where
  "IsOutput (NewOutputProperty _) = True"
| "IsOutput _ = False"

text \<open>
  \<^verbatim>\<open>*structpb.Value\<close>: a pointer that may be nil (\<open>Value_nil\<close>) to a message whose \<^verbatim>\<open>Kind\<close> is
  one of the six generated wrappers or unset (\<open>Value_KindNotSet\<close>). A \<^verbatim>\<open>*structpb.Struct\<close> may
  be nil as well, which \<^verbatim>\<open>UnmarshalProperties\<close> tests for: it is an option.
\<close>

datatype Value =
    Value_nil
  | Value_KindNotSet
  | Value_NullValue
  | Value_BoolValue bool
  | Value_NumberValue float64
  | Value_StringValue string
  | Value_ListValue "Value list"
  | Value_StructValue "(string \<times> Value) list option"

type_synonym Struct = "(string \<times> Value) list"

record MarshalOptions =
  SkipNulls :: bool
  OldURNs :: bool
  RawResources :: bool

text \<open>
  Modelled from the spec: package \<^verbatim>\<open>contract\<close> is not part of the sources. Section 7: a
  violated invariant is fatal and aborts the current operation at once, with no partial
  result. Each \<^verbatim>\<open>contract.Assert\<close>, \<^verbatim>\<open>Assertf\<close> and \<^verbatim>\<open>Failf\<close> of \<^verbatim>\<open>rpc.go\<close> has its own error
  value, in the order of the source: the assertion of \<^verbatim>\<open>MarshalProperties\<close>, the two
  assertions on the element of a computed or output value, the nil test, the assertion on
  a decoded field and the one on the index of \<^verbatim>\<open>UnmarshalPropertyValue\<close>, and its
  \<^verbatim>\<open>Failf\<close> for an unknown kind.
\<close>

datatype error =
    UnexpectedUnknownProperties
  | ElementIsComputed
  | ElementNotKnown
  | ValueIsNil
  | DecodedComputed
  | ElemsIndexOutOfRange
  | UnrecognizedKind

subsection \<open>Go maps as entry lists\<close>

definition map_index :: "(string \<times> 'v) list \<Rightarrow> string \<Rightarrow> 'v \<Rightarrow> 'v" where
  "map_index m k zero = (case map_of m k of None \<Rightarrow> zero | Some v \<Rightarrow> v)"

definition map_keys :: "(string \<times> 'v) list \<Rightarrow> string list" where
  "map_keys m = map fst m"

text \<open>
  Modelled from the spec: \<^verbatim>\<open>PropertyMap.StableKeys\<close> of package \<^verbatim>\<open>resource\<close> is not part of
  the sources. Section 4.1: keys are visited in sorted (lexicographic) order.
\<close>

definition StableKeys :: "('a, 'r) PropertyMap \<Rightarrow> string list" where
  "StableKeys props = sort (map_keys props)"

text \<open>
  Modelled from the spec: \<^verbatim>\<open>resource.NewPropertyMapFromMap\<close> is not part of the sources.
  Section 4.6: the generic mapping that \<^verbatim>\<open>Serialize\<close> produces is marshaled through the
  ordinary Object path; each plain value becomes the property value of the same kind.
\<close>

fun NewPropertyValue :: "plain \<Rightarrow> ('a, 'r) PropertyValue" where
  "NewPropertyValue PlainNil = NewNullProperty"
| "NewPropertyValue (PlainBool b) = NewBoolProperty b"
| "NewPropertyValue (PlainNumber n) = NewNumberProperty n"
| "NewPropertyValue (PlainString s) = NewStringProperty s"
| "NewPropertyValue (PlainArray xs) = NewArrayProperty (map NewPropertyValue xs)"
| "NewPropertyValue (PlainMap m) = NewObjectProperty (map (\<lambda>(k, v). (k, NewPropertyValue v)) m)"

definition NewPropertyMapFromMap :: "(string \<times> plain) list \<Rightarrow> ('a, 'r) PropertyMap" where
  "NewPropertyMapFromMap m = map (\<lambda>(k, v). (k, NewPropertyValue v)) m"

text \<open>
  The other functions of package \<^verbatim>\<open>resource\<close> that \<^verbatim>\<open>rpc.go\<close> calls are parameters of the
  model: the two \<^verbatim>\<open>Serialize\<close> methods, \<^verbatim>\<open>PropertyMap.Mappable\<close> and the two recognizers, whose
  Go result \<^verbatim>\<open>(value, bool)\<close> is an option.
\<close>

record ('a, 'r) resource_pkg =
  AssetSerialize :: "'a \<Rightarrow> (string \<times> plain) list"
  ArchiveSerialize :: "'r \<Rightarrow> (string \<times> plain) list"
  Mappable :: "('a, 'r) PropertyMap \<Rightarrow> (string \<times> plain) list"
  DeserializeAsset :: "(string \<times> plain) list \<Rightarrow> 'a option"
  DeserializeArchive :: "(string \<times> plain) list \<Rightarrow> 'r option"

section \<open>Marshaling\<close>

definition MarshalNull :: "MarshalOptions \<Rightarrow> Value" where
  "MarshalNull opts = Value_NullValue"

definition MarshalString :: "string \<Rightarrow> MarshalOptions \<Rightarrow> Value" where
  "MarshalString s opts = Value_StringValue s"

definition MarshalStruct :: "Struct \<Rightarrow> MarshalOptions \<Rightarrow> Value" where
  "MarshalStruct obj opts = Value_StructValue (Some obj)"

text \<open>
  The measure of the recursion: whether a value holds an asset or archive, and its nesting
  depth. Marshaling an asset marshals its serialized map, which holds none.
\<close>

definition list_max :: "nat list \<Rightarrow> nat" where
  "list_max ns = foldr max ns 0"

fun special :: "('a, 'r) PropertyValue \<Rightarrow> nat" where
  "special (NewAssetProperty _) = 2"
| "special (NewArchiveProperty _) = 2"
| "special (NewArrayProperty elems) = list_max (map special elems)"
| "special (NewObjectProperty m) = list_max (map (\<lambda>(k, v). special v) m)"
| "special (NewComputedProperty e) = special e"
| "special (NewOutputProperty e) = special e"
| "special _ = 0"

fun depth :: "('a, 'r) PropertyValue \<Rightarrow> nat" where
  "depth (NewArrayProperty elems) = Suc (list_max (map depth elems))"
| "depth (NewObjectProperty m) = Suc (list_max (map (\<lambda>(k, v). depth v) m))"
| "depth (NewComputedProperty e) = Suc (depth e)"
| "depth (NewOutputProperty e) = Suc (depth e)"
| "depth _ = 0"

lemma list_max_ge: "n \<in> set ns \<Longrightarrow> n \<le> list_max ns"
  unfolding list_max_def by (induction ns) auto

lemma list_max_zero: "(\<And>n. n \<in> set ns \<Longrightarrow> n = 0) \<Longrightarrow> list_max ns = 0"
  unfolding list_max_def by (induction ns) auto

lemma special_NewPropertyValue: "special (NewPropertyValue p :: ('a, 'r) PropertyValue) = 0"
proof (induction p)
  case (PlainArray xs)
  then show ?case by (auto intro!: list_max_zero)
next
  case (PlainMap m)
  then show ?case by (fastforce intro!: list_max_zero)
qed simp_all

lemma special_NewPropertyMapFromMap:
  "special (NewObjectProperty (NewPropertyMapFromMap m) :: ('a, 'r) PropertyValue) = 0"
  using special_NewPropertyValue [of "PlainMap m", where ?'a = 'a and ?'r = 'r]
  by (simp add: NewPropertyMapFromMap_def)

lemma special_map_index:
  "special (map_index props key NewNullProperty) \<le> list_max (map (\<lambda>(k, v). special v) props)"
proof (cases "map_of props key")
  case None
  then show ?thesis by (simp add: map_index_def)
next
  case (Some v)
  then have "(key, v) \<in> set props" by (rule map_of_SomeD)
  then have "special v \<in> set (map (\<lambda>(k, v). special v) props)" by force
  then show ?thesis using Some by (simp add: map_index_def list_max_ge)
qed

lemma depth_map_index:
  "depth (map_index props key NewNullProperty) \<le> list_max (map (\<lambda>(k, v). depth v) props)"
proof (cases "map_of props key")
  case None
  then show ?thesis by (simp add: map_index_def)
next
  case (Some v)
  then have "(key, v) \<in> set props" by (rule map_of_SomeD)
  then have "depth v \<in> set (map (\<lambda>(k, v). depth v) props)" by force
  then show ?thesis using Some by (simp add: map_index_def list_max_ge)
qed

fun marshal_rank ::
  "((('a, 'r) resource_pkg \<times> ('a, 'r) PropertyMap \<times> MarshalOptions)
    + (('a, 'r) resource_pkg \<times> ('a, 'r) PropertyMap \<times> MarshalOptions \<times> string list
        \<times> Struct \<times> (string \<times> bool) list option)
    + (('a, 'r) resource_pkg \<times> ('a, 'r) PropertyValue \<times> MarshalOptions))
   + ((('a, 'r) resource_pkg \<times> MarshalOptions \<times> ('a, 'r) PropertyValue list \<times> bool \<times> Value list)
    + (('a, 'r) resource_pkg \<times> 'a \<times> MarshalOptions)
    + (('a, 'r) resource_pkg \<times> 'r \<times> MarshalOptions))
   \<Rightarrow> nat \<times> nat \<times> nat" where
  "marshal_rank (Inl (Inl (R, props, opts))) =
     (list_max (map (\<lambda>(k, v). special v) props), list_max (map (\<lambda>(k, v). depth v) props),
      length (StableKeys props) + 2)"
| "marshal_rank (Inl (Inr (Inl (R, props, opts, keys, result, unk)))) =
     (list_max (map (\<lambda>(k, v). special v) props), list_max (map (\<lambda>(k, v). depth v) props),
      length keys + 1)"
| "marshal_rank (Inl (Inr (Inr (R, v, opts)))) = (special v, depth v, 0)"
| "marshal_rank (Inr (Inl (R, opts, elems, outcome, acc))) =
     (list_max (map special elems), list_max (map depth elems), length elems + 1)"
| "marshal_rank (Inr (Inr (Inl (R, a, opts)))) = (1, 0, 0)"
| "marshal_rank (Inr (Inr (Inr (R, a, opts)))) = (1, 0, 0)"

function MarshalPropertiesWithUnknowns ::
    "('a, 'r) resource_pkg \<Rightarrow> ('a, 'r) PropertyMap \<Rightarrow> MarshalOptions
      \<Rightarrow> error + (Struct \<times> (string \<times> bool) list option)"
  and marshal_keys ::
    "('a, 'r) resource_pkg \<Rightarrow> ('a, 'r) PropertyMap \<Rightarrow> MarshalOptions \<Rightarrow> string list
      \<Rightarrow> Struct \<Rightarrow> (string \<times> bool) list option
      \<Rightarrow> error + (Struct \<times> (string \<times> bool) list option)"
  and MarshalPropertyValue ::
    "('a, 'r) resource_pkg \<Rightarrow> ('a, 'r) PropertyValue \<Rightarrow> MarshalOptions \<Rightarrow> error + (Value \<times> bool)"
  and marshal_elems ::
    "('a, 'r) resource_pkg \<Rightarrow> MarshalOptions \<Rightarrow> ('a, 'r) PropertyValue list
      \<Rightarrow> bool \<Rightarrow> Value list \<Rightarrow> error + (Value list \<times> bool)"
  and MarshalAsset ::
    "('a, 'r) resource_pkg \<Rightarrow> 'a \<Rightarrow> MarshalOptions \<Rightarrow> error + (Value \<times> bool)"
  and MarshalArchive ::
    "('a, 'r) resource_pkg \<Rightarrow> 'r \<Rightarrow> MarshalOptions \<Rightarrow> error + (Value \<times> bool)"
where
  "MarshalPropertiesWithUnknowns R props opts =
     marshal_keys R props opts (StableKeys props) [] None"
| "marshal_keys R props opts [] result unk = Inr (result, unk)"
| "marshal_keys R props opts (key # keys) result unk =
     (let v = map_index props key NewNullProperty in
      if IsOutput v then marshal_keys R props opts keys result unk
      else if SkipNulls opts \<and> IsNull v then marshal_keys R props opts keys result unk
      else (case MarshalPropertyValue R v opts of
              Inl e \<Rightarrow> Inl e
            | Inr (mv, known) \<Rightarrow>
                (let result' = AList.update key mv result in
                 if \<not> known
                 then marshal_keys R props opts keys result'
                        (Some (AList.update key True (case unk of None \<Rightarrow> [] | Some u \<Rightarrow> u)))
                 else marshal_keys R props opts keys result' unk)))"
| "MarshalPropertyValue R NewNullProperty opts = Inr (MarshalNull opts, True)"
| "MarshalPropertyValue R (NewBoolProperty b) opts = Inr (Value_BoolValue b, True)"
| "MarshalPropertyValue R (NewNumberProperty n) opts = Inr (Value_NumberValue n, True)"
| "MarshalPropertyValue R (NewStringProperty s) opts = Inr (MarshalString s opts, True)"
| "MarshalPropertyValue R (NewArrayProperty arr) opts =
     (case marshal_elems R opts arr True [] of
        Inl e \<Rightarrow> Inl e
      | Inr (elems, outcome) \<Rightarrow> Inr (Value_ListValue elems, outcome))"
| "MarshalPropertyValue R (NewAssetProperty a) opts = MarshalAsset R a opts"
| "MarshalPropertyValue R (NewArchiveProperty a) opts = MarshalArchive R a opts"
| "MarshalPropertyValue R (NewObjectProperty m) opts =
     (case MarshalPropertiesWithUnknowns R m opts of
        Inl e \<Rightarrow> Inl e
      | Inr (obj, unks) \<Rightarrow> Inr (MarshalStruct obj opts, unks = None))"
| "MarshalPropertyValue R (NewComputedProperty e) opts =
     (if IsComputed e then Inl ElementIsComputed
      else (case MarshalPropertyValue R e opts of
              Inl err \<Rightarrow> Inl err
            | Inr (w, known) \<Rightarrow> if \<not> known then Inl ElementNotKnown else Inr (w, False)))"
| "MarshalPropertyValue R (NewOutputProperty e) opts =
     (if IsComputed e then Inl ElementIsComputed
      else (case MarshalPropertyValue R e opts of
              Inl err \<Rightarrow> Inl err
            | Inr (w, known) \<Rightarrow> if \<not> known then Inl ElementNotKnown else Inr (w, False)))"
| "marshal_elems R opts [] outcome elems = Inr (elems, outcome)"
| "marshal_elems R opts (elem # rest) outcome elems =
     (case MarshalPropertyValue R elem opts of
        Inl e \<Rightarrow> Inl e
      | Inr (elemv, known) \<Rightarrow> marshal_elems R opts rest (outcome \<and> known) (elems @ [elemv]))"
| "MarshalAsset R v opts =
     MarshalPropertyValue R (NewObjectProperty (NewPropertyMapFromMap (AssetSerialize R v))) opts"
| "MarshalArchive R v opts =
     MarshalPropertyValue R (NewObjectProperty (NewPropertyMapFromMap (ArchiveSerialize R v))) opts"
  by pat_completeness auto
termination
proof (relation "inv_image (less_than <*lex*> less_than <*lex*> less_than) marshal_rank",
    goal_cases)
  case 1
  show ?case by (intro wf_inv_image wf_lex_prod wf_less_than)
next
  case (5 R props opts key keys result unk x)
  show ?case
    using special_map_index [of props key] depth_map_index [of props key]
    unfolding \<open>x = _\<close> by (auto simp: le_less)
next
  case (14 R opts elem rest outcome elems)
  have "special elem \<le> list_max (map special (elem # rest))"
       "depth elem \<le> list_max (map depth (elem # rest))"
    by (simp_all add: list_max_ge)
  then show ?case by (auto simp: le_less)
next
  case (15 R opts elem rest outcome elems)
  have "list_max (map special rest) \<le> list_max (map special (elem # rest))"
       "list_max (map depth rest) \<le> list_max (map depth (elem # rest))"
    by (simp_all add: list_max_def)
  then show ?case by (auto simp: le_less)
next
  case (16 R v opts)
  show ?case
    using special_NewPropertyMapFromMap [of "AssetSerialize R v", where ?'a = 'a and ?'r = 'r]
    by simp
next
  case (17 R v opts)
  show ?case
    using special_NewPropertyMapFromMap [of "ArchiveSerialize R v", where ?'a = 'a and ?'r = 'r]
    by simp
qed simp_all

definition MarshalProperties ::
    "('a, 'r) resource_pkg \<Rightarrow> ('a, 'r) PropertyMap \<Rightarrow> MarshalOptions \<Rightarrow> error + Struct" where
  "MarshalProperties R props opts =
     (case MarshalPropertiesWithUnknowns R props opts of
        Inl e \<Rightarrow> Inl e
      | Inr (pstr, unks) \<Rightarrow> if unks \<noteq> None then Inl UnexpectedUnknownProperties else Inr pstr)"

section \<open>Unmarshaling\<close>

fun vdepth :: "Value \<Rightarrow> nat" where
  "vdepth (Value_ListValue vals) = Suc (list_max (map vdepth vals))"
| "vdepth (Value_StructValue None) = Suc 0"
| "vdepth (Value_StructValue (Some flds)) = Suc (list_max (map (\<lambda>(k, v). vdepth v) flds))"
| "vdepth _ = 0"

lemma vdepth_map_index:
  "vdepth (map_index flds key Value_nil) \<le> list_max (map (\<lambda>(k, v). vdepth v) flds)"
proof (cases "map_of flds key")
  case None
  then show ?thesis by (simp add: map_index_def)
next
  case (Some v)
  then have "(key, v) \<in> set flds" by (rule map_of_SomeD)
  then have "vdepth v \<in> set (map (\<lambda>(k, v). vdepth v) flds)" by force
  then show ?thesis using Some by (simp add: map_index_def list_max_ge)
qed

fun unmarshal_rank ::
  "((('a, 'r) resource_pkg \<times> Struct option \<times> MarshalOptions)
    + (('a, 'r) resource_pkg \<times> Struct \<times> MarshalOptions \<times> string list \<times> ('a, 'r) PropertyMap))
   + ((('a, 'r) resource_pkg \<times> Value \<times> MarshalOptions)
    + (('a, 'r) resource_pkg \<times> MarshalOptions \<times> Value list \<times> nat \<times> ('a, 'r) PropertyValue list))
   \<Rightarrow> nat \<times> nat" where
  "unmarshal_rank (Inl (Inl (R, None, opts))) = (0, 0)"
| "unmarshal_rank (Inl (Inl (R, Some flds, opts))) =
     (list_max (map (\<lambda>(k, v). vdepth v) flds), length (map_keys flds) + 2)"
| "unmarshal_rank (Inl (Inr (R, flds, opts, keys, result))) =
     (list_max (map (\<lambda>(k, v). vdepth v) flds), length keys + 1)"
| "unmarshal_rank (Inr (Inl (R, v, opts))) = (vdepth v, 0)"
| "unmarshal_rank (Inr (Inr (R, opts, vals, i, elems))) =
     (list_max (map vdepth vals), length vals + 1)"

function UnmarshalProperties ::
    "('a, 'r) resource_pkg \<Rightarrow> Struct option \<Rightarrow> MarshalOptions \<Rightarrow> error + ('a, 'r) PropertyMap"
  and unmarshal_keys ::
    "('a, 'r) resource_pkg \<Rightarrow> Struct \<Rightarrow> MarshalOptions \<Rightarrow> string list
      \<Rightarrow> ('a, 'r) PropertyMap \<Rightarrow> error + ('a, 'r) PropertyMap"
  and UnmarshalPropertyValue ::
    "('a, 'r) resource_pkg \<Rightarrow> Value \<Rightarrow> MarshalOptions \<Rightarrow> error + ('a, 'r) PropertyValue"
  and unmarshal_elems ::
    "('a, 'r) resource_pkg \<Rightarrow> MarshalOptions \<Rightarrow> Value list \<Rightarrow> nat
      \<Rightarrow> ('a, 'r) PropertyValue list \<Rightarrow> error + ('a, 'r) PropertyValue list"
where
  "UnmarshalProperties R None opts = Inr []"
| "UnmarshalProperties R (Some flds) opts =
     unmarshal_keys R flds opts (sort (map_keys flds)) []"
| "unmarshal_keys R flds opts [] result = Inr result"
| "unmarshal_keys R flds opts (key # keys) result =
     (case UnmarshalPropertyValue R (map_index flds key Value_nil) opts of
        Inl e \<Rightarrow> Inl e
      | Inr v \<Rightarrow>
          if IsComputed v then Inl DecodedComputed
          else if SkipNulls opts \<and> IsNull v then unmarshal_keys R flds opts keys result
          else unmarshal_keys R flds opts keys (AList.update key v result))"
| "UnmarshalPropertyValue R Value_nil opts = Inl ValueIsNil"
| "UnmarshalPropertyValue R Value_NullValue opts = Inr NewNullProperty"
| "UnmarshalPropertyValue R (Value_BoolValue b) opts = Inr (NewBoolProperty b)"
| "UnmarshalPropertyValue R (Value_NumberValue n) opts = Inr (NewNumberProperty n)"
| "UnmarshalPropertyValue R (Value_StringValue s) opts = Inr (NewStringProperty s)"
| "UnmarshalPropertyValue R (Value_ListValue lst) opts =
     (case unmarshal_elems R opts lst 0 [] of
        Inl e \<Rightarrow> Inl e
      | Inr elems \<Rightarrow> Inr (NewArrayProperty elems))"
| "UnmarshalPropertyValue R (Value_StructValue s) opts =
     (case UnmarshalProperties R s opts of
        Inl e \<Rightarrow> Inl e
      | Inr obj \<Rightarrow>
          (let objmap = Mappable R obj in
           case DeserializeAsset R objmap of
             Some asset \<Rightarrow> Inr (NewAssetProperty asset)
           | None \<Rightarrow>
               (case DeserializeArchive R objmap of
                  Some archive \<Rightarrow> Inr (NewArchiveProperty archive)
                | None \<Rightarrow> Inr (NewObjectProperty obj))))"
| "UnmarshalPropertyValue R Value_KindNotSet opts = Inl UnrecognizedKind"
| "unmarshal_elems R opts [] i elems = Inr elems"
| "unmarshal_elems R opts (elem # rest) i elems =
     (let elems' = (if i = length elems then elems @ [NewNullProperty] else elems) in
      if \<not> length elems' > i then Inl ElemsIndexOutOfRange
      else (case UnmarshalPropertyValue R elem opts of
              Inl e \<Rightarrow> Inl e
            | Inr v \<Rightarrow> unmarshal_elems R opts rest (Suc i) (elems'[i := v])))"
  by pat_completeness auto
termination
proof (relation "inv_image (less_than <*lex*> less_than) unmarshal_rank", goal_cases)
  case 1
  show ?case by (intro wf_inv_image wf_lex_prod wf_less_than)
next
  case (3 R flds opts key keys result)
  show ?case using vdepth_map_index [of flds key] by (auto simp: le_less)
next
  case (7 R s opts)
  show ?case by (cases s) simp_all
next
  case (8 R opts elem rest i elems x)
  have "vdepth elem \<le> list_max (map vdepth (elem # rest))"
    by (simp add: list_max_ge)
  then show ?case by (auto simp: le_less)
next
  case (9 R opts elem rest i elems x b)
  have "list_max (map vdepth rest) \<le> list_max (map vdepth (elem # rest))"
    by (simp add: list_max_def)
  then show ?case by (auto simp: le_less)
qed simp_all

section \<open>The asset and archive codec\<close>

text \<open>
  Modelled from the spec: \<^verbatim>\<open>resource.Asset\<close>, \<^verbatim>\<open>resource.Archive\<close>, their \<^verbatim>\<open>Serialize\<close> methods,
  \<^verbatim>\<open>resource.DeserializeAsset\<close>, \<^verbatim>\<open>resource.DeserializeArchive\<close> and \<^verbatim>\<open>PropertyMap.Mappable\<close>
  are not part of the sources. Sections 3 and 4.6: an asset or archive is an opaque
  content reference, inline bytes or a path/URI; \<^verbatim>\<open>Serialize\<close> produces a self-describing
  generic mapping, a discriminator field plus the payload field; recognition inspects the
  discriminator field and the required companion field, and absence or malformation
  means no match. The names of the fields and the discriminator values are chosen by the
  implementation; the ones below stand for them.
\<close>

datatype content = Inline string | Location string

datatype Asset = Asset content

datatype Archive = Archive content

definition SigKey :: string where
  "SigKey = ''sig''"

definition AssetSig :: string where
  "AssetSig = ''asset''"

definition ArchiveSig :: string where
  "ArchiveSig = ''archive''"

fun serialize_content :: "string \<Rightarrow> content \<Rightarrow> (string \<times> plain) list" where
  "serialize_content sig (Inline s) = [(SigKey, PlainString sig), (''inline'', PlainString s)]"
| "serialize_content sig (Location s) = [(SigKey, PlainString sig), (''location'', PlainString s)]"

definition deserialize_content :: "string \<Rightarrow> (string \<times> plain) list \<Rightarrow> content option" where
  "deserialize_content sig obj =
     (if map_of obj SigKey \<noteq> Some (PlainString sig) then None
      else (case map_of obj ''inline'' of
              Some (PlainString s) \<Rightarrow> Some (Inline s)
            | _ \<Rightarrow> (case map_of obj ''location'' of
                      Some (PlainString s) \<Rightarrow> Some (Location s)
                    | _ \<Rightarrow> None)))"

fun Asset_Serialize :: "Asset \<Rightarrow> (string \<times> plain) list" where
  "Asset_Serialize (Asset c) = serialize_content AssetSig c"

fun Archive_Serialize :: "Archive \<Rightarrow> (string \<times> plain) list" where
  "Archive_Serialize (Archive c) = serialize_content ArchiveSig c"

definition resource_DeserializeAsset :: "(string \<times> plain) list \<Rightarrow> Asset option" where
  "resource_DeserializeAsset obj = map_option Asset (deserialize_content AssetSig obj)"

definition resource_DeserializeArchive :: "(string \<times> plain) list \<Rightarrow> Archive option" where
  "resource_DeserializeArchive obj = map_option Archive (deserialize_content ArchiveSig obj)"

text \<open>
  The plain view of a property map: each value as the plain value of its kind, an asset or
  archive as its serialized mapping. A decoded map holds no computed or output value.
\<close>

fun PropertyValue_Mappable :: "(Asset, Archive) PropertyValue \<Rightarrow> plain" where
  "PropertyValue_Mappable NewNullProperty = PlainNil"
| "PropertyValue_Mappable (NewBoolProperty b) = PlainBool b"
| "PropertyValue_Mappable (NewNumberProperty n) = PlainNumber n"
| "PropertyValue_Mappable (NewStringProperty s) = PlainString s"
| "PropertyValue_Mappable (NewArrayProperty elems) = PlainArray (map PropertyValue_Mappable elems)"
| "PropertyValue_Mappable (NewAssetProperty a) = PlainMap (Asset_Serialize a)"
| "PropertyValue_Mappable (NewArchiveProperty a) = PlainMap (Archive_Serialize a)"
| "PropertyValue_Mappable (NewObjectProperty m) =
     PlainMap (map (\<lambda>(k, v). (k, PropertyValue_Mappable v)) m)"
| "PropertyValue_Mappable (NewComputedProperty e) = PlainNil"
| "PropertyValue_Mappable (NewOutputProperty e) = PlainNil"

definition PropertyMap_Mappable :: "(Asset, Archive) PropertyMap \<Rightarrow> (string \<times> plain) list" where
  "PropertyMap_Mappable m = map (\<lambda>(k, v). (k, PropertyValue_Mappable v)) m"

definition resource :: "(Asset, Archive) resource_pkg" where
  "resource =
     \<lparr> AssetSerialize = Asset_Serialize,
       ArchiveSerialize = Archive_Serialize,
       Mappable = PropertyMap_Mappable,
       DeserializeAsset = resource_DeserializeAsset,
       DeserializeArchive = resource_DeserializeArchive \<rparr>"

text \<open>The zero \<^verbatim>\<open>MarshalOptions{}\<close>, and the options with only \<^verbatim>\<open>SkipNulls\<close> set.\<close>

definition default_options :: MarshalOptions where
  "default_options = \<lparr> SkipNulls = False, OldURNs = False, RawResources = False \<rparr>"

definition skip_nulls :: MarshalOptions where
  "skip_nulls = \<lparr> SkipNulls = True, OldURNs = False, RawResources = False \<rparr>"

section \<open>Predicates on values\<close>

text \<open>A value is fully known when it holds no computed and no output value at any depth.\<close>

fun fully_known :: "('a, 'r) PropertyValue \<Rightarrow> bool" where
  "fully_known (NewComputedProperty e) = False"
| "fully_known (NewOutputProperty e) = False"
| "fully_known (NewArrayProperty elems) = list_all fully_known elems"
| "fully_known (NewObjectProperty m) = list_all (\<lambda>(k, v). fully_known v) m"
| "fully_known _ = True"

text \<open>
  A value is exposed when marshaling it meets a computed or output value that is not under
  an output-valued key of a map: such keys are skipped before their value is looked at.
  Only the entry that a lookup of its key finds counts.
\<close>

fun exposed :: "('a, 'r) PropertyValue \<Rightarrow> bool" where
  "exposed (NewComputedProperty e) = True"
| "exposed (NewOutputProperty e) = True"
| "exposed (NewArrayProperty elems) = list_ex exposed elems"
| "exposed (NewObjectProperty m) =
     list_ex (\<lambda>(k, v). map_of m k = Some v \<and> \<not> IsOutput v \<and> exposed v) m"
| "exposed _ = False"



text \<open>
  The closed wire-kind set: a wire value without a nil pointer and without an unset kind,
  at any depth.
\<close>

fun closed_kind :: "Value \<Rightarrow> bool" where
  "closed_kind Value_nil = False"
| "closed_kind Value_KindNotSet = False"
| "closed_kind (Value_ListValue vals) = list_all closed_kind vals"
| "closed_kind (Value_StructValue None) = True"
| "closed_kind (Value_StructValue (Some flds)) = list_all (\<lambda>(k, v). closed_kind v) flds"
| "closed_kind _ = True"

text \<open>
  The values the round trip is about: those built from the null, bool, number, string,
  array and object variants only.
\<close>

fun plain_variants :: "('a, 'r) PropertyValue \<Rightarrow> bool" where
  "plain_variants NewNullProperty = True"
| "plain_variants (NewBoolProperty b) = True"
| "plain_variants (NewNumberProperty n) = True"
| "plain_variants (NewStringProperty s) = True"
| "plain_variants (NewArrayProperty elems) = list_all plain_variants elems"
| "plain_variants (NewObjectProperty m) = list_all (\<lambda>(k, v). plain_variants v) m"
| "plain_variants _ = False"

text \<open>
  The canonical representative of a value: every nested map lists its entries in strictly
  increasing key order. Every Go value has exactly one.
\<close>

fun canonical :: "('a, 'r) PropertyValue \<Rightarrow> bool" where
  "canonical (NewArrayProperty elems) = list_all canonical elems"
| "canonical (NewObjectProperty m) =
     (sorted (map fst m) \<and> distinct (map fst m) \<and> list_all (\<lambda>(k, v). canonical v) m)"
| "canonical (NewComputedProperty e) = canonical e"
| "canonical (NewOutputProperty e) = canonical e"
| "canonical _ = True"

text \<open>
  No nested object of the value is taken for an asset or an archive by the recognizers.
\<close>

fun unrecognized :: "('a, 'r) resource_pkg \<Rightarrow> ('a, 'r) PropertyValue \<Rightarrow> bool" where
  "unrecognized R (NewArrayProperty elems) = list_all (unrecognized R) elems"
| "unrecognized R (NewObjectProperty m) =
     (DeserializeAsset R (Mappable R m) = None \<and> DeserializeArchive R (Mappable R m) = None \<and>
      list_all (\<lambda>(k, v). unrecognized R v) m)"
| "unrecognized R (NewComputedProperty e) = unrecognized R e"
| "unrecognized R (NewOutputProperty e) = unrecognized R e"
| "unrecognized R _ = True"

text \<open>
  The wire form of a value built from the six plain variants: what \<^verbatim>\<open>MarshalPropertyValue\<close>
  computes on a canonical one, as \<open>marshal_wire\<close> below shows.
\<close>

fun wire :: "('a, 'r) PropertyValue \<Rightarrow> Value" where
  "wire NewNullProperty = Value_NullValue"
| "wire (NewBoolProperty b) = Value_BoolValue b"
| "wire (NewNumberProperty n) = Value_NumberValue n"
| "wire (NewStringProperty s) = Value_StringValue s"
| "wire (NewArrayProperty elems) = Value_ListValue (map wire elems)"
| "wire (NewObjectProperty m) = Value_StructValue (Some (map (\<lambda>(k, v). (k, wire v)) m))"
| "wire _ = Value_KindNotSet"

section \<open>The document parser\<close>

text \<open>
  \<^verbatim>\<open>parser.Parse\<close> of package \<^verbatim>\<open>compiler\<close>. A document is a file name and a body of bytes.
  Its \<^verbatim>\<open>Ext\<close> method and the table \<^verbatim>\<open>encoding.Marshalers\<close> are not part of the sources and
  are parameters of \<open>Parse\<close>: the table maps an extension to the \<^verbatim>\<open>Unmarshal\<close> function of its
  marshaler, which returns an error or the stack it has filled in.

  Modelled from the spec: the diagnostics of packages \<^verbatim>\<open>diag\<close> and \<^verbatim>\<open>errors\<close> are not part of
  the sources. Section 7: the parser reports structured diagnostics (source document,
  message) through a sink. The sink is the list of the errors reported so far;
  \<^verbatim>\<open>WithDocument\<close> attaches the document to a diagnostic.

  \<^verbatim>\<open>glog.Fatalf\<close> ends the process: the outcome \<open>ProcessExit\<close>. The logging calls have no
  other effect and are left out.
\<close>

record Document =
  File :: string
  Body :: string

datatype Diag = IllegalMufileSyntax "Document option"

fun WithDocument :: "Diag \<Rightarrow> Document \<Rightarrow> Diag" where
  "WithDocument (IllegalMufileSyntax _) doc = IllegalMufileSyntax (Some doc)"

type_synonym 'e Sink = "(Diag \<times> 'e) list"

definition Errorf :: "'e Sink \<Rightarrow> Diag \<Rightarrow> 'e \<Rightarrow> 'e Sink" where
  "Errorf sink d arg = sink @ [(d, arg)]"

definition Errors :: "'e Sink \<Rightarrow> nat" where
  "Errors sink = length sink"

datatype 's outcome = ProcessExit | Return "'s option"

definition Parse ::
    "(Document \<Rightarrow> string) \<Rightarrow> (string \<rightharpoonup> (string \<Rightarrow> 'e + 's)) \<Rightarrow> Document \<Rightarrow> 'e Sink
      \<Rightarrow> 's outcome \<times> 'e Sink" where
  "Parse Ext Marshalers doc sink =
     (case Marshalers (Ext doc) of
        None \<Rightarrow> (ProcessExit, sink)
      | Some marshaler \<Rightarrow>
          (case marshaler (Body doc) of
             Inl err \<Rightarrow> (Return None, Errorf sink (WithDocument (IllegalMufileSyntax None) doc) err)
           | Inr stack \<Rightarrow> (Return (Some stack), sink)))"

text \<open>
  A table with one marshaler, which accepts the empty JSON object only, and an extension
  function: an instance of the two parameters.
\<close>

definition json_unmarshal :: "string \<Rightarrow> string + nat" where
  "json_unmarshal body = (if body = ''{}'' then Inr 0 else Inl ''unexpected end of input'')"

definition json_only :: "string \<rightharpoonup> (string \<Rightarrow> string + nat)" where
  "json_only = [''.json'' \<mapsto> json_unmarshal]"

definition file_ext :: "Document \<Rightarrow> string" where
  "file_ext doc = dropWhile (\<lambda>c. c \<noteq> CHR ''.'') (File doc)"

section \<open>Properties of marshaling\<close>

lemma map_index_Some: "map_of m k = Some v \<Longrightarrow> map_index m k z = v"
  by (simp add: map_index_def)

lemma fully_known_NewPropertyValue: "fully_known (NewPropertyValue p :: ('a, 'r) PropertyValue)"
  by (induction p) (auto simp: list_all_iff)

lemma fully_known_not_computed: "fully_known v \<Longrightarrow> \<not> IsComputed v \<and> \<not> IsOutput v"
  by (cases v) simp_all

lemma fully_known_map_index:
  "list_all (\<lambda>(k, v). fully_known v) m \<Longrightarrow> fully_known (map_index m k NewNullProperty)"
  by (auto simp: map_index_def list_all_iff split: option.splits dest: map_of_SomeD)

lemma marshal_fully_known:
  "list_all (\<lambda>(k, v). fully_known v) props \<Longrightarrow>
     \<exists>pstr. MarshalPropertiesWithUnknowns R props opts = Inr (pstr, None)"
  "list_all (\<lambda>(k, v). fully_known v) props \<Longrightarrow>
     \<exists>pstr. marshal_keys R props opts keys result unk = Inr (pstr, unk)"
  "fully_known v \<Longrightarrow> \<exists>w. MarshalPropertyValue R v opts = Inr (w, True)"
  "list_all fully_known elems \<Longrightarrow>
     \<exists>ws. marshal_elems R opts elems outcome acc = Inr (ws, outcome)"
  "\<exists>w. MarshalAsset R a opts = Inr (w, True)"
  "\<exists>w. MarshalArchive R r opts = Inr (w, True)"
proof (induction R props opts and R props opts keys result unk and R v opts
    and R opts elems outcome acc and R a opts and R r opts
    rule: MarshalPropertiesWithUnknowns_marshal_keys_MarshalPropertyValue_marshal_elems_MarshalAsset_MarshalArchive.induct)
  case (3 R props opts key keys result unk)
  let ?v = "map_index props key NewNullProperty"
  have fk: "fully_known ?v" using "3.prems" by (rule fully_known_map_index)
  then have no: "\<not> IsOutput ?v" by (cases ?v) simp_all
  show ?case
  proof (cases "SkipNulls opts \<and> IsNull ?v")
    case True
    then show ?thesis using no "3.IH"(2) [OF refl no True "3.prems"] by (simp add: Let_def)
  next
    case False
    obtain w where w: "MarshalPropertyValue R ?v opts = Inr (w, True)"
      using "3.IH"(3) [OF refl no False fk] by blast
    show ?thesis
      using no False w "3.IH"(5) [OF refl no False w refl refl _ "3.prems"]
      by (auto simp: Let_def)
  qed
next
  case (16 R v opts)
  have "fully_known (NewObjectProperty (NewPropertyMapFromMap (AssetSerialize R v)) :: ('a, 'b) PropertyValue)"
    using fully_known_NewPropertyValue [of "PlainMap (AssetSerialize R v)", where ?'a = 'a and ?'r = 'b]
    by (simp add: NewPropertyMapFromMap_def)
  then show ?case using 16 by simp
next
  case (17 R v opts)
  have "fully_known (NewObjectProperty (NewPropertyMapFromMap (ArchiveSerialize R v)) :: ('a, 'b) PropertyValue)"
    using fully_known_NewPropertyValue [of "PlainMap (ArchiveSerialize R v)", where ?'a = 'a and ?'r = 'b]
    by (simp add: NewPropertyMapFromMap_def)
  then show ?case using 17 by simp
qed (auto simp: MarshalStruct_def split: sum.splits prod.splits)

lemma marshal_keys_skips_output:
  "marshal_keys R props opts keys result unk = Inr (pstr, unks) \<Longrightarrow>
   IsOutput (map_index props k NewNullProperty) \<Longrightarrow>
   map_of result k = None \<Longrightarrow> map_of pstr k = None"
proof (induction keys arbitrary: result unk)
  case Nil
  then show ?case by simp
next
  case (Cons key keys)
  show ?case
  proof (cases "key = k")
    case True
    with Cons.prems have "marshal_keys R props opts keys result unk = Inr (pstr, unks)"
      by simp
    then show ?thesis using Cons.prems(2,3) by (rule Cons.IH)
  next
    case False
    then have upd: "map_of (AList.update key mv result) k = None" for mv
      using Cons.prems(3) by (simp add: update_conv')
    show ?thesis
      using Cons.prems(1) Cons.IH [OF _ Cons.prems(2)] Cons.prems(3) upd
      by (auto simp: Let_def split: if_splits sum.splits prod.splits)
  qed
qed

text \<open>
  Claim C4. For every property map in which key \<open>k\<close> maps to an output value, whatever the
  marshal options, the wire struct that \<^verbatim>\<open>MarshalPropertiesWithUnknowns\<close> returns has no
  field named \<open>k\<close>.
\<close>

theorem output_suppressed:
  assumes "map_of props k = Some (NewOutputProperty e)"
    and "MarshalPropertiesWithUnknowns R props opts = Inr (pstr, unks)"
  shows "map_of pstr k = None"
proof -
  have "IsOutput (map_index props k NewNullProperty)"
    using assms(1) by (simp add: map_index_Some)
  moreover have "marshal_keys R props opts (StableKeys props) [] None = Inr (pstr, unks)"
    using assms(2) by simp
  ultimately show ?thesis
    using marshal_keys_skips_output [of R props opts "StableKeys props" "[]" None pstr unks k]
    by simp
qed

theorem output_suppressed_witness:
  "map_of [(''j'', NewBoolProperty True), (''k'', NewOutputProperty NewNullProperty)] ''k''
     = Some (NewOutputProperty NewNullProperty :: (Asset, Archive) PropertyValue) \<and>
   MarshalPropertiesWithUnknowns resource
     [(''j'', NewBoolProperty True), (''k'', NewOutputProperty NewNullProperty)] default_options
     = Inr ([(''j'', Value_BoolValue True)], None) \<and>
   map_of [(''j'', Value_BoolValue True)] ''k'' = None"
proof -
  have m: "map_of [(''j'', NewBoolProperty True), (''k'', NewOutputProperty NewNullProperty)] ''k''
     = Some (NewOutputProperty NewNullProperty :: (Asset, Archive) PropertyValue)"
    by simp
  have r: "MarshalPropertiesWithUnknowns resource
     [(''j'', NewBoolProperty True), (''k'', NewOutputProperty NewNullProperty)] default_options
     = Inr ([(''j'', Value_BoolValue True)], None)"
    by (simp add: StableKeys_def map_keys_def map_index_def)
  show ?thesis using m r output_suppressed [OF m r] by simp
qed

lemma marshal_elems_unknown:
  "marshal_elems R opts elems outcome acc = Inr (ws, out) \<Longrightarrow>
   \<not> outcome \<or> (\<exists>x \<in> set elems. \<forall>w known. MarshalPropertyValue R x opts = Inr (w, known) \<longrightarrow> \<not> known) \<Longrightarrow>
   \<not> out"
proof (induction elems arbitrary: outcome acc)
  case Nil
  then show ?case by simp
next
  case (Cons elem rest)
  from Cons.prems(1) obtain elemv known where
    m: "MarshalPropertyValue R elem opts = Inr (elemv, known)" and
    r: "marshal_elems R opts rest (outcome \<and> known) (acc @ [elemv]) = Inr (ws, out)"
    by (auto split: sum.splits prod.splits)
  have "\<not> (outcome \<and> known) \<or>
     (\<exists>x \<in> set rest. \<forall>w known. MarshalPropertyValue R x opts = Inr (w, known) \<longrightarrow> \<not> known)"
    using Cons.prems(2) m by auto
  with r show ?case by (rule Cons.IH)
qed

lemma marshal_keys_unknown:
  "marshal_keys R props opts keys result unk = Inr (pstr, unks) \<Longrightarrow>
   unk \<noteq> None \<or> (\<exists>k \<in> set keys. \<not> IsOutput (map_index props k NewNullProperty) \<and>
      (\<forall>w known. MarshalPropertyValue R (map_index props k NewNullProperty) opts = Inr (w, known)
         \<longrightarrow> \<not> known)) \<Longrightarrow>
   unks \<noteq> None"
proof (induction keys arbitrary: result unk)
  case Nil
  then show ?case by simp
next
  case (Cons key keys)
  let ?v = "map_index props key NewNullProperty"
  let ?bad = "\<lambda>k. \<not> IsOutput (map_index props k NewNullProperty) \<and>
      (\<forall>w known. MarshalPropertyValue R (map_index props k NewNullProperty) opts = Inr (w, known)
         \<longrightarrow> \<not> known)"
  show ?case
  proof (cases "IsOutput ?v \<or> (SkipNulls opts \<and> IsNull ?v)")
    case True
    then have r: "marshal_keys R props opts keys result unk = Inr (pstr, unks)"
      using Cons.prems(1) by (auto simp: Let_def split: if_splits)
    have "\<not> ?bad key"
    proof (cases "IsOutput ?v")
      case True
      then show ?thesis by simp
    next
      case False
      with True have "IsNull ?v" by simp
      then have "?v = NewNullProperty" by (cases ?v) simp_all
      then show ?thesis by auto
    qed
    then have "unk \<noteq> None \<or> (\<exists>k \<in> set keys. ?bad k)" using Cons.prems(2) by auto
    with r show ?thesis by (rule Cons.IH)
  next
    case False
    then obtain mv known where
      m: "MarshalPropertyValue R ?v opts = Inr (mv, known)"
      using Cons.prems(1) by (auto simp: Let_def split: sum.splits)
    show ?thesis
    proof (cases known)
      case True
      then have r: "marshal_keys R props opts keys (AList.update key mv result) unk = Inr (pstr, unks)"
        using Cons.prems(1) False m by (auto simp: Let_def)
      have "\<not> ?bad key" using m True by auto
      then have "unk \<noteq> None \<or> (\<exists>k \<in> set keys. ?bad k)" using Cons.prems(2) by auto
      with r show ?thesis by (rule Cons.IH)
    next
      case nk: False
      then have r: "marshal_keys R props opts keys (AList.update key mv result)
          (Some (AList.update key True (case unk of None \<Rightarrow> [] | Some u \<Rightarrow> u))) = Inr (pstr, unks)"
        using Cons.prems(1) False m by (auto simp: Let_def)
      show ?thesis by (rule Cons.IH [OF r]) simp
    qed
  qed
qed

lemma exposed_not_known:
  "exposed v \<Longrightarrow> MarshalPropertyValue R v opts = Inr (w, known) \<Longrightarrow> \<not> known"
proof (induction v arbitrary: w known rule: exposed.induct)
  case (1 e)
  then show ?case by (auto split: if_splits sum.splits prod.splits)
next
  case (2 e)
  then show ?case by (auto split: if_splits sum.splits prod.splits)
next
  case (3 elems)
  from "3.prems"(1) obtain x where x: "x \<in> set elems" "exposed x"
    by (auto simp: list_ex_iff)
  have bad: "\<forall>w known. MarshalPropertyValue R x opts = Inr (w, known) \<longrightarrow> \<not> known"
    using "3.IH" [OF x] by blast
  from "3.prems"(2) obtain ws where
    "marshal_elems R opts elems True [] = Inr (ws, known)"
    by (auto split: sum.splits prod.splits)
  then show ?case using marshal_elems_unknown [of R opts elems True "[]" ws known] x(1) bad
    by blast
next
  case (4 m)
  from "4.prems"(1) obtain k v where
    kv: "(k, v) \<in> set m" "map_of m k = Some v" "\<not> IsOutput v" "exposed v"
    by (auto simp: list_ex_iff)
  have bad: "\<forall>w known. MarshalPropertyValue R v opts = Inr (w, known) \<longrightarrow> \<not> known"
    using "4.IH" [OF kv(1) refl kv(4)] by blast
  have v: "map_index m k NewNullProperty = v" using kv(2) by (rule map_index_Some)
  have k: "k \<in> set (StableKeys m)" using kv(1) by (force simp: StableKeys_def map_keys_def)
  from "4.prems"(2) obtain obj unks where
    r: "marshal_keys R m opts (StableKeys m) [] None = Inr (obj, unks)" and "known = (unks = None)"
    by (auto split: sum.splits prod.splits)
  moreover have "unks \<noteq> None"
    using marshal_keys_unknown [OF r] k v kv(3) bad by auto
  ultimately show ?case by simp
qed simp_all

text \<open>
  Claim C2, as amended. The strict marshal \<^verbatim>\<open>MarshalProperties\<close> aborts on every property map
  that exposes an unknown: a key that maps to a computed value, or to an array or object
  that in turn exposes a computed value or, as an array element, an output value. A key
  whose value is itself an output is skipped, so it does not make the strict marshal abort:
  the counterexample below is a map \<open>{k: Output(Null)}\<close> that marshals to the empty struct.
\<close>

theorem strict_marshal_aborts:
  assumes "exposed (NewObjectProperty props)"
  shows "\<exists>err. MarshalProperties R props opts = Inl err"
proof (cases "MarshalPropertiesWithUnknowns R props opts")
  case (Inl e)
  then show ?thesis by (simp add: MarshalProperties_def)
next
  case (Inr p)
  obtain pstr unks where p: "p = (pstr, unks)" by (cases p)
  have "MarshalPropertyValue R (NewObjectProperty props) opts
      = Inr (MarshalStruct pstr opts, unks = None)"
    using Inr p by simp
  then have "unks \<noteq> None" using exposed_not_known [OF assms] by blast
  then show ?thesis using Inr p by (simp add: MarshalProperties_def)
qed

theorem strict_marshal_aborts_witness:
  "exposed (NewObjectProperty [(''k'', NewArrayProperty [NewOutputProperty NewNullProperty])]
      :: (Asset, Archive) PropertyValue) \<and>
   MarshalProperties resource [(''k'', NewArrayProperty [NewOutputProperty NewNullProperty])]
      default_options = Inl UnexpectedUnknownProperties"
proof -
  have e: "exposed (NewObjectProperty [(''k'', NewArrayProperty [NewOutputProperty NewNullProperty])]
      :: (Asset, Archive) PropertyValue)"
    by simp
  have "MarshalProperties resource [(''k'', NewArrayProperty [NewOutputProperty NewNullProperty])]
      default_options = Inl UnexpectedUnknownProperties"
    using strict_marshal_aborts [OF e, of resource default_options]
    by (simp add: MarshalProperties_def StableKeys_def map_keys_def map_index_def MarshalNull_def)
  with e show ?thesis by simp
qed

theorem strict_marshal_output_counterexample:
  "map_of [(''k'', NewOutputProperty NewNullProperty)] ''k''
     = Some (NewOutputProperty NewNullProperty :: (Asset, Archive) PropertyValue) \<and>
   MarshalProperties resource [(''k'', NewOutputProperty NewNullProperty)] default_options = Inr []"
  by (simp add: MarshalProperties_def StableKeys_def map_keys_def map_index_def)

text \<open>
  Claim C5, as amended. Marshaling a computed or output value whose inner element is itself
  computed aborts. When the inner element is not computed, the result depends on the
  marshaling of the element: if it is marshaled as known (which every fully known element
  is), the result is the element's wire form with the known flag false; if it is marshaled
  as not known, the assertion \<^verbatim>\<open>contract.Assert(known)\<close> aborts the marshal; if marshaling it
  aborts, so does the whole. The counterexample has inner elements that are not computed
  (an output, an array of a computed) and yet abort.
\<close>

theorem placeholder_marshal:
  "(IsComputed e \<longrightarrow>
      MarshalPropertyValue R (NewComputedProperty e) opts = Inl ElementIsComputed \<and>
      MarshalPropertyValue R (NewOutputProperty e) opts = Inl ElementIsComputed) \<and>
   (\<not> IsComputed e \<longrightarrow> MarshalPropertyValue R e opts = Inr (w, True) \<longrightarrow>
      MarshalPropertyValue R (NewComputedProperty e) opts = Inr (w, False) \<and>
      MarshalPropertyValue R (NewOutputProperty e) opts = Inr (w, False)) \<and>
   (\<not> IsComputed e \<longrightarrow> MarshalPropertyValue R e opts = Inr (w, False) \<longrightarrow>
      MarshalPropertyValue R (NewComputedProperty e) opts = Inl ElementNotKnown \<and>
      MarshalPropertyValue R (NewOutputProperty e) opts = Inl ElementNotKnown) \<and>
   (\<not> IsComputed e \<longrightarrow> MarshalPropertyValue R e opts = Inl err \<longrightarrow>
      MarshalPropertyValue R (NewComputedProperty e) opts = Inl err \<and>
      MarshalPropertyValue R (NewOutputProperty e) opts = Inl err) \<and>
   (fully_known e \<longrightarrow>
      (\<exists>w'. MarshalPropertyValue R e opts = Inr (w', True) \<and>
        MarshalPropertyValue R (NewComputedProperty e) opts = Inr (w', False) \<and>
        MarshalPropertyValue R (NewOutputProperty e) opts = Inr (w', False)))"
proof -
  have "\<exists>w'. MarshalPropertyValue R e opts = Inr (w', True) \<and>
        MarshalPropertyValue R (NewComputedProperty e) opts = Inr (w', False) \<and>
        MarshalPropertyValue R (NewOutputProperty e) opts = Inr (w', False)"
    if fk: "fully_known e"
  proof -
    obtain w' where "MarshalPropertyValue R e opts = Inr (w', True)"
      using marshal_fully_known(3) [OF fk] by blast
    moreover have "\<not> IsComputed e" using fk by (cases e) simp_all
    ultimately show ?thesis by simp
  qed
  then show ?thesis by simp
qed

theorem placeholder_marshal_witness:
  "IsComputed (NewComputedProperty NewNullProperty :: (Asset, Archive) PropertyValue) \<and>
   MarshalPropertyValue resource (NewComputedProperty (NewComputedProperty NewNullProperty))
     default_options = Inl ElementIsComputed \<and>
   \<not> IsComputed (NewStringProperty '''' :: (Asset, Archive) PropertyValue) \<and>
   fully_known (NewStringProperty '''' :: (Asset, Archive) PropertyValue) \<and>
   MarshalPropertyValue resource (NewStringProperty '''') default_options
     = Inr (Value_StringValue '''', True) \<and>
   MarshalPropertyValue resource (NewComputedProperty (NewStringProperty '''')) default_options
     = Inr (Value_StringValue '''', False) \<and>
   \<not> IsComputed (NewArrayProperty [NewOutputProperty NewNullProperty]
     :: (Asset, Archive) PropertyValue) \<and>
   MarshalPropertyValue resource (NewArrayProperty [NewOutputProperty NewNullProperty])
     default_options = Inr (Value_ListValue [Value_NullValue], False) \<and>
   MarshalPropertyValue resource
     (NewOutputProperty (NewArrayProperty [NewOutputProperty NewNullProperty]))
     default_options = Inl ElementNotKnown"
proof -
  have a: "MarshalPropertyValue resource (NewStringProperty '''') default_options
     = Inr (Value_StringValue '''', True)"
    by (simp add: MarshalString_def)
  have b: "MarshalPropertyValue resource (NewArrayProperty [NewOutputProperty NewNullProperty])
     default_options = Inr (Value_ListValue [Value_NullValue], False)"
    by (simp add: MarshalNull_def)
  show ?thesis
    using a b
      placeholder_marshal [of "NewComputedProperty NewNullProperty" resource default_options]
      placeholder_marshal [of "NewStringProperty ''''" resource default_options
        "Value_StringValue ''''"]
      placeholder_marshal [of "NewArrayProperty [NewOutputProperty NewNullProperty]" resource
        default_options "Value_ListValue [Value_NullValue]"]
    by simp
qed

theorem placeholder_marshal_counterexample:
  "\<not> IsComputed (NewOutputProperty NewNullProperty :: (Asset, Archive) PropertyValue) \<and>
   MarshalPropertyValue resource (NewComputedProperty (NewOutputProperty NewNullProperty))
     default_options = Inl ElementNotKnown \<and>
   \<not> IsComputed (NewArrayProperty [NewComputedProperty NewNullProperty]
     :: (Asset, Archive) PropertyValue) \<and>
   MarshalPropertyValue resource
     (NewComputedProperty (NewArrayProperty [NewComputedProperty NewNullProperty]))
     default_options = Inl ElementNotKnown"
  by (simp add: MarshalNull_def)

lemma set_update_subset: "set (AList.update k v al) \<subseteq> insert (k, v) (set al)"
  by (induction al) auto

lemma unmarshal_keys_no_null:
  "unmarshal_keys R flds opts keys result = Inr pm \<Longrightarrow> SkipNulls opts \<Longrightarrow>
   (k, NewNullProperty) \<notin> set result \<Longrightarrow> (k, NewNullProperty) \<notin> set pm"
proof (induction keys arbitrary: result)
  case Nil
  then show ?case by simp
next
  case (Cons key keys)
  from Cons.prems(1) obtain v where
    v: "UnmarshalPropertyValue R (map_index flds key Value_nil) opts = Inr v" "\<not> IsComputed v"
    by (auto split: sum.splits if_splits)
  show ?case
  proof (cases "IsNull v")
    case True
    then have "unmarshal_keys R flds opts keys result = Inr pm"
      using Cons.prems(1,2) v by simp
    then show ?thesis using Cons.prems(2,3) by (rule Cons.IH)
  next
    case False
    then have r: "unmarshal_keys R flds opts keys (AList.update key v result) = Inr pm"
      using Cons.prems(1,2) v by simp
    have "v \<noteq> NewNullProperty" using False by auto
    then have "(k, NewNullProperty) \<notin> set (AList.update key v result)"
      using Cons.prems(3) set_update_subset [of key v result] by auto
    with r Cons.prems(2) show ?thesis by (rule Cons.IH)
  qed
qed

text \<open>
  Claim C7. With \<^verbatim>\<open>SkipNulls\<close> set, marshaling \<open>{a: Null, b: "x"}\<close> yields the struct with the
  single field \<open>b\<close> mapped to the string \<open>x\<close>, unmarshaling the wire struct
  \<open>{a: null, b: "x"}\<close> yields the map with the single key \<open>b\<close>, and no map that
  \<^verbatim>\<open>UnmarshalProperties\<close> returns holds a null value; without \<^verbatim>\<open>SkipNulls\<close> both keys are
  marshaled, \<open>a\<close> to the wire null.
\<close>

theorem null_skipping:
  "(SkipNulls opts \<longrightarrow>
      MarshalPropertiesWithUnknowns R [(''a'', NewNullProperty), (''b'', NewStringProperty ''x'')] opts
        = Inr ([(''b'', Value_StringValue ''x'')], None)) \<and>
   (\<not> SkipNulls opts \<longrightarrow>
      MarshalPropertiesWithUnknowns R [(''a'', NewNullProperty), (''b'', NewStringProperty ''x'')] opts
        = Inr ([(''a'', Value_NullValue), (''b'', Value_StringValue ''x'')], None)) \<and>
   (SkipNulls opts \<longrightarrow>
      UnmarshalProperties R (Some [(''a'', Value_NullValue), (''b'', Value_StringValue ''x'')]) opts
        = Inr [(''b'', NewStringProperty ''x'')]) \<and>
   (SkipNulls opts \<longrightarrow> UnmarshalProperties R s opts = Inr pm \<longrightarrow>
      (k, NewNullProperty) \<notin> set pm)"
proof (intro conjI impI)
  assume "SkipNulls opts"
  then show "MarshalPropertiesWithUnknowns R
      [(''a'', NewNullProperty), (''b'', NewStringProperty ''x'')] opts
        = Inr ([(''b'', Value_StringValue ''x'')], None)"
    by (simp add: StableKeys_def map_keys_def map_index_def MarshalString_def)
next
  assume "\<not> SkipNulls opts"
  then show "MarshalPropertiesWithUnknowns R
      [(''a'', NewNullProperty), (''b'', NewStringProperty ''x'')] opts
        = Inr ([(''a'', Value_NullValue), (''b'', Value_StringValue ''x'')], None)"
    by (simp add: StableKeys_def map_keys_def map_index_def MarshalString_def MarshalNull_def)
next
  assume "SkipNulls opts"
  then show "UnmarshalProperties R
      (Some [(''a'', Value_NullValue), (''b'', Value_StringValue ''x'')]) opts
        = Inr [(''b'', NewStringProperty ''x'')]"
    by (simp add: map_keys_def map_index_def)
next
  assume s: "SkipNulls opts" and u: "UnmarshalProperties R s opts = Inr pm"
  show "(k, NewNullProperty) \<notin> set pm"
  proof (cases s)
    case None
    with u show ?thesis by simp
  next
    case (Some flds)
    with u have "unmarshal_keys R flds opts (sort (map_keys flds)) [] = Inr pm" by simp
    then show ?thesis using s by (rule unmarshal_keys_no_null) simp
  qed
qed

theorem null_skipping_witness:
  "SkipNulls skip_nulls \<and> \<not> SkipNulls default_options \<and>
   MarshalPropertiesWithUnknowns resource
     [(''a'', NewNullProperty), (''b'', NewStringProperty ''x'')] skip_nulls
       = Inr ([(''b'', Value_StringValue ''x'')], None) \<and>
   MarshalPropertiesWithUnknowns resource
     [(''a'', NewNullProperty), (''b'', NewStringProperty ''x'')] default_options
       = Inr ([(''a'', Value_NullValue), (''b'', Value_StringValue ''x'')], None) \<and>
   UnmarshalProperties resource
     (Some [(''a'', Value_NullValue), (''b'', Value_StringValue ''x'')]) skip_nulls
       = Inr [(''b'', NewStringProperty ''x'')] \<and>
   (''a'', NewNullProperty) \<notin> set [(''b'', NewStringProperty ''x'' :: (Asset, Archive) PropertyValue)]"
proof -
  have s: "SkipNulls skip_nulls" by (simp add: skip_nulls_def)
  have d: "\<not> SkipNulls default_options" by (simp add: default_options_def)
  show ?thesis
    using s d
      null_skipping [of skip_nulls resource
        "Some [(''a'', Value_NullValue), (''b'', Value_StringValue ''x'')]"
        "[(''b'', NewStringProperty ''x'')]" "''a''"]
      null_skipping [of default_options resource None "[]" "''a''"]
    by simp
qed











section \<open>Properties of unmarshaling\<close>

lemma fully_known_update:
  "list_all (\<lambda>(k, v). fully_known v) result \<Longrightarrow> fully_known v \<Longrightarrow>
   list_all (\<lambda>(k, v). fully_known v) (AList.update key v result)"
  using set_update_subset [of key v result] by (auto simp: list_all_iff)

lemma fully_known_list_update:
  "list_all fully_known elems \<Longrightarrow> fully_known v \<Longrightarrow> list_all fully_known (elems[i := v])"
  using set_update_subset_insert [of elems i v] by (auto simp: list_all_iff)

lemma unmarshal_fully_known:
  "UnmarshalProperties R s opts = Inr pm \<Longrightarrow> list_all (\<lambda>(k, v). fully_known v) pm"
  "unmarshal_keys R flds opts keys result = Inr pm \<Longrightarrow>
     list_all (\<lambda>(k, v). fully_known v) result \<Longrightarrow> list_all (\<lambda>(k, v). fully_known v) pm"
  "UnmarshalPropertyValue R v opts = Inr pv \<Longrightarrow> fully_known pv"
  "unmarshal_elems R opts vals i elems = Inr res \<Longrightarrow>
     list_all fully_known elems \<Longrightarrow> list_all fully_known res"
proof (induction R s opts and R flds opts keys result and R v opts and R opts vals i elems
    arbitrary: pm and pm and pv and res
    rule: UnmarshalProperties_unmarshal_keys_UnmarshalPropertyValue_unmarshal_elems.induct)
  case (4 R flds opts key keys result)
  from "4.prems"(1) obtain v where
    v: "UnmarshalPropertyValue R (map_index flds key Value_nil) opts = Inr v" "\<not> IsComputed v"
    by (auto split: sum.splits if_splits)
  have fk: "fully_known v" using v(1) by (rule "4.IH"(1))
  show ?case
  proof (cases "SkipNulls opts \<and> IsNull v")
    case True
    then have "unmarshal_keys R flds opts keys result = Inr pm"
      using "4.prems"(1) v by simp
    then show ?thesis using "4.IH"(2) [OF v True] "4.prems"(2) by blast
  next
    case False
    then have "unmarshal_keys R flds opts keys (AList.update key v result) = Inr pm"
      using "4.prems"(1) v by auto
    then show ?thesis
      using "4.IH"(3) [OF v False] fully_known_update [OF "4.prems"(2) fk] by blast
  qed
next
  case (10 R lst opts)
  then show ?case by (auto split: sum.splits)
next
  case (11 R s opts)
  then show ?case by (auto simp: Let_def split: sum.splits option.splits)
next
  case (14 R opts elem rest i elems)
  let ?elems = "if i = length elems then elems @ [NewNullProperty] else elems"
  from "14.prems"(1) obtain v where
    len: "i < length ?elems" and
    v: "UnmarshalPropertyValue R elem opts = Inr v" and
    r: "unmarshal_elems R opts rest (Suc i) (?elems[i := v]) = Inr res"
    by (auto simp: Let_def split: sum.splits if_splits)
  have nlen: "\<not> \<not> i < length ?elems" using len by simp
  have fk: "fully_known v" using "14.IH"(1) [OF refl nlen v] .
  have "list_all fully_known ?elems" using "14.prems"(2) by simp
  then have "list_all fully_known (?elems[i := v])" using fk by (rule fully_known_list_update)
  then show ?case using "14.IH"(2) [OF refl nlen v r] by simp
qed auto

lemma unmarshal_never_decoded_computed:
  "UnmarshalProperties R s opts \<noteq> Inl DecodedComputed"
  "unmarshal_keys R flds opts keys result \<noteq> Inl DecodedComputed"
  "UnmarshalPropertyValue R v opts \<noteq> Inl DecodedComputed"
  "unmarshal_elems R opts vals i elems \<noteq> Inl DecodedComputed"
proof (induction R s opts and R flds opts keys result and R v opts and R opts vals i elems
    rule: UnmarshalProperties_unmarshal_keys_UnmarshalPropertyValue_unmarshal_elems.induct)
  case (4 R flds opts key keys result)
  show ?case
  proof (cases "UnmarshalPropertyValue R (map_index flds key Value_nil) opts")
    case (Inl e)
    then show ?thesis using "4.IH"(1) by auto
  next
    case (Inr v)
    then have "\<not> IsComputed v"
      using unmarshal_fully_known(3) fully_known_not_computed by blast
    then show ?thesis using Inr "4.IH"(2,3) [OF Inr] by auto
  qed
next
  case (11 R s opts)
  then show ?case by (auto simp: Let_def split: sum.splits option.splits)
next
  case (14 R opts elem rest i elems)
  then show ?case by (auto simp: Let_def split: sum.splits)
qed (auto split: sum.splits)

lemma closed_kind_map_index:
  "list_all (\<lambda>(k, v). closed_kind v) flds \<Longrightarrow> key \<in> fst ` set flds \<Longrightarrow>
   closed_kind (map_index flds key Value_nil)"
proof -
  assume a: "list_all (\<lambda>(k, v). closed_kind v) flds" and "key \<in> fst ` set flds"
  then obtain v where v: "map_of flds key = Some v"
    by (cases "map_of flds key") (auto simp: map_of_eq_None_iff)
  then have "(key, v) \<in> set flds" by (rule map_of_SomeD)
  then have "closed_kind v" using a by (auto simp: list_all_iff)
  then show ?thesis using v by (simp add: map_index_def)
qed

lemma unmarshal_closed_kind:
  "(case s of None \<Rightarrow> True | Some flds \<Rightarrow> list_all (\<lambda>(k, v). closed_kind v) flds) \<Longrightarrow>
     \<exists>pm. UnmarshalProperties R s opts = Inr pm"
  "list_all (\<lambda>(k, v). closed_kind v) flds \<Longrightarrow> set keys \<subseteq> fst ` set flds \<Longrightarrow>
     \<exists>pm. unmarshal_keys R flds opts keys result = Inr pm"
  "closed_kind v \<Longrightarrow> \<exists>pv. UnmarshalPropertyValue R v opts = Inr pv"
  "list_all closed_kind vals \<Longrightarrow> i = length elems \<Longrightarrow>
     \<exists>res. unmarshal_elems R opts vals i elems = Inr res"
proof (induction R s opts and R flds opts keys result and R v opts and R opts vals i elems
    rule: UnmarshalProperties_unmarshal_keys_UnmarshalPropertyValue_unmarshal_elems.induct)
  case (2 R flds opts)
  then show ?case by (simp add: map_keys_def)
next
  case (4 R flds opts key keys result)
  have "closed_kind (map_index flds key Value_nil)"
    using "4.prems" by (auto intro: closed_kind_map_index)
  then obtain v where v: "UnmarshalPropertyValue R (map_index flds key Value_nil) opts = Inr v"
    using "4.IH"(1) by blast
  then have nc: "\<not> IsComputed v"
    using unmarshal_fully_known(3) fully_known_not_computed by blast
  show ?case
  proof (cases "SkipNulls opts \<and> IsNull v")
    case True
    then show ?thesis using v nc "4.IH"(2) [OF v nc True] "4.prems" by auto
  next
    case False
    then show ?thesis using v nc "4.IH"(3) [OF v nc False] "4.prems" by auto
  qed
next
  case (10 R lst opts)
  then show ?case by (auto split: sum.splits)
next
  case (11 R s opts)
  have "\<exists>pm. UnmarshalProperties R s opts = Inr pm"
    using "11.prems" by (intro "11.IH") (cases s, simp_all)
  then show ?case by (auto simp: Let_def split: option.splits)
next
  case (14 R opts elem rest i elems)
  let ?elems = "if i = length elems then elems @ [NewNullProperty] else elems"
  have len: "\<not> \<not> i < length ?elems" using "14.prems"(2) by simp
  obtain v where v: "UnmarshalPropertyValue R elem opts = Inr v"
    using "14.IH"(1) [OF refl len] "14.prems"(1) by auto
  have "\<exists>res. unmarshal_elems R opts rest (Suc i) (?elems[i := v]) = Inr res"
    using "14.prems" by (intro "14.IH"(2) [OF refl len v]) simp_all
  then show ?case using v "14.prems"(2) by (simp add: Let_def)
qed auto

text \<open>
  Claim C8. \<^verbatim>\<open>UnmarshalPropertyValue\<close> never returns a computed value, so the assertion of
  \<^verbatim>\<open>UnmarshalProperties\<close> that a decoded field is not computed never fails; on a wire value
  of the closed wire-kind set both functions return a value.
\<close>

theorem decoded_never_computed:
  "UnmarshalPropertyValue R v opts \<noteq> Inr (NewComputedProperty e) \<and>
   UnmarshalProperties R s opts \<noteq> Inl DecodedComputed \<and>
   (closed_kind v \<longrightarrow> (\<exists>pv. UnmarshalPropertyValue R v opts = Inr pv \<and> \<not> IsComputed pv)) \<and>
   ((\<forall>(k, x) \<in> set flds. closed_kind x) \<longrightarrow>
      (\<exists>pm. UnmarshalProperties R (Some flds) opts = Inr pm))"
proof (intro conjI impI)
  show "UnmarshalPropertyValue R v opts \<noteq> Inr (NewComputedProperty e)"
    using unmarshal_fully_known(3) [of R v opts "NewComputedProperty e"] by auto
  show "UnmarshalProperties R s opts \<noteq> Inl DecodedComputed"
    by (rule unmarshal_never_decoded_computed)
next
  assume "closed_kind v"
  then obtain pv where pv: "UnmarshalPropertyValue R v opts = Inr pv"
    using unmarshal_closed_kind(3) by blast
  then have "\<not> IsComputed pv"
    using unmarshal_fully_known(3) fully_known_not_computed by blast
  with pv show "\<exists>pv. UnmarshalPropertyValue R v opts = Inr pv \<and> \<not> IsComputed pv" by blast
next
  assume "\<forall>(k, x) \<in> set flds. closed_kind x"
  then have "list_all (\<lambda>(k, v). closed_kind v) flds" by (simp add: list_all_iff)
  then show "\<exists>pm. UnmarshalProperties R (Some flds) opts = Inr pm"
    using unmarshal_closed_kind(1) [of "Some flds"] by simp
qed

theorem decoded_never_computed_witness:
  "closed_kind (Value_ListValue [Value_NullValue, Value_StructValue (Some [(''n'', Value_BoolValue True)])]) \<and>
   (\<exists>pv. UnmarshalPropertyValue resource
       (Value_ListValue [Value_NullValue, Value_StructValue (Some [(''n'', Value_BoolValue True)])])
       default_options = Inr pv \<and> \<not> IsComputed pv) \<and>
   (\<exists>pm. UnmarshalProperties resource (Some [(''n'', Value_BoolValue True)]) default_options = Inr pm)"
proof -
  let ?v = "Value_ListValue [Value_NullValue, Value_StructValue (Some [(''n'', Value_BoolValue True)])]"
  have c: "closed_kind ?v" by simp
  have d: "\<forall>(k, x) \<in> set [(''n'', Value_BoolValue True)]. closed_kind x" by simp
  show ?thesis
    using c d decoded_never_computed [of resource ?v default_options _ _ "[(''n'', Value_BoolValue True)]"]
    by blast
qed

text \<open>
  Claim C10. Every value that \<^verbatim>\<open>UnmarshalPropertyValue\<close> returns is neither an output nor a
  computed value and holds none at any depth, and so does every value of a property map
  that \<^verbatim>\<open>UnmarshalProperties\<close> returns.
\<close>

theorem decoded_fully_known:
  "(UnmarshalPropertyValue R v opts = Inr pv \<longrightarrow>
      fully_known pv \<and> \<not> IsOutput pv \<and> \<not> IsComputed pv) \<and>
   (UnmarshalProperties R s opts = Inr pm \<longrightarrow> (\<forall>(k, x) \<in> set pm. fully_known x))"
  using unmarshal_fully_known(1) [of R s opts pm] unmarshal_fully_known(3) [of R v opts pv]
    fully_known_not_computed [of pv]
  by (auto simp: list_all_iff)

theorem decoded_fully_known_witness:
  "UnmarshalPropertyValue resource
     (Value_StructValue (Some [(''xs'', Value_ListValue [Value_NumberValue 1, Value_NullValue])]))
     default_options
     = Inr (NewObjectProperty [(''xs'', NewArrayProperty [NewNumberProperty 1, NewNullProperty])]) \<and>
   fully_known (NewObjectProperty [(''xs'', NewArrayProperty [NewNumberProperty 1, NewNullProperty])]
     :: (Asset, Archive) PropertyValue) \<and>
   UnmarshalProperties resource
     (Some [(''xs'', Value_ListValue [Value_NumberValue 1, Value_NullValue])]) default_options
     = Inr [(''xs'', NewArrayProperty [NewNumberProperty 1, NewNullProperty])] \<and>
   fully_known (NewArrayProperty [NewNumberProperty 1, NewNullProperty]
     :: (Asset, Archive) PropertyValue)"
proof -
  have p: "UnmarshalProperties resource
     (Some [(''xs'', Value_ListValue [Value_NumberValue 1, Value_NullValue])]) default_options
     = Inr [(''xs'', NewArrayProperty [NewNumberProperty 1, NewNullProperty])]"
    by (simp add: map_keys_def map_index_def default_options_def)
  have v: "UnmarshalPropertyValue resource
     (Value_StructValue (Some [(''xs'', Value_ListValue [Value_NumberValue 1, Value_NullValue])]))
     default_options
     = Inr (NewObjectProperty [(''xs'', NewArrayProperty [NewNumberProperty 1, NewNullProperty])])"
    using p
    by (simp add: resource_def PropertyMap_Mappable_def resource_DeserializeAsset_def
        resource_DeserializeArchive_def deserialize_content_def SigKey_def)
  show ?thesis
    using p v
      decoded_fully_known [of resource
        "Value_StructValue (Some [(''xs'', Value_ListValue [Value_NumberValue 1, Value_NullValue])])"
        default_options
        "NewObjectProperty [(''xs'', NewArrayProperty [NewNumberProperty 1, NewNullProperty])]"
        "Some [(''xs'', Value_ListValue [Value_NumberValue 1, Value_NullValue])]"
        "[(''xs'', NewArrayProperty [NewNumberProperty 1, NewNullProperty])]"]
    by simp
qed

text \<open>
  Claim C6. When \<^verbatim>\<open>UnmarshalPropertyValue\<close> decodes a wire struct, it decodes the fields to
  a property map and runs the asset recognizer, then the archive recognizer, on the plain
  view of that map: the first match gives the typed asset or archive, and a map that
  neither recognizer matches is wrapped as an object. A map that the asset recognizer
  matches is never decoded as an archive. For the codec of section 4.6 the two recognizers
  never match the same mapping, so a map that the archive recognizer matches is decoded
  as that archive; a serialized asset is recognized as that asset and not as an archive,
  and a serialized archive as that archive and not as an asset.
\<close>

theorem sniff_order:
  "(UnmarshalProperties R s opts = Inr obj \<longrightarrow>
      UnmarshalPropertyValue R (Value_StructValue s) opts =
        Inr (case DeserializeAsset R (Mappable R obj) of
               Some asset \<Rightarrow> NewAssetProperty asset
             | None \<Rightarrow>
                 (case DeserializeArchive R (Mappable R obj) of
                    Some archive \<Rightarrow> NewArchiveProperty archive
                  | None \<Rightarrow> NewObjectProperty obj))) \<and>
   (UnmarshalProperties R s opts = Inr obj \<longrightarrow> DeserializeAsset R (Mappable R obj) = Some asset \<longrightarrow>
      UnmarshalPropertyValue R (Value_StructValue s) opts \<noteq> Inr (NewArchiveProperty archive)) \<and>
   (DeserializeAsset resource objmap = Some x \<longrightarrow> DeserializeArchive resource objmap = None) \<and>
   (DeserializeArchive resource objmap = Some y \<longrightarrow> DeserializeAsset resource objmap = None) \<and>
   (UnmarshalProperties resource s opts = Inr m \<longrightarrow>
      DeserializeArchive resource (Mappable resource m) = Some y \<longrightarrow>
      UnmarshalPropertyValue resource (Value_StructValue s) opts = Inr (NewArchiveProperty y)) \<and>
   DeserializeAsset resource (AssetSerialize resource a) = Some a \<and>
   DeserializeArchive resource (AssetSerialize resource a) = None \<and>
   DeserializeArchive resource (ArchiveSerialize resource r) = Some r \<and>
   DeserializeAsset resource (ArchiveSerialize resource r) = None"
proof -
  have sig: "AssetSig \<noteq> ArchiveSig" by (simp add: AssetSig_def ArchiveSig_def)
  have excl: "deserialize_content AssetSig objmap = None \<or> deserialize_content ArchiveSig objmap = None"
    for objmap
    using sig by (auto simp: deserialize_content_def)
  have x1: "DeserializeAsset resource objmap = Some x \<longrightarrow> DeserializeArchive resource objmap = None"
    for objmap x
    using excl [of objmap]
    by (auto simp: resource_def resource_DeserializeAsset_def resource_DeserializeArchive_def)
  have x2: "DeserializeArchive resource objmap = Some y \<longrightarrow> DeserializeAsset resource objmap = None"
    for objmap y
    using excl [of objmap]
    by (auto simp: resource_def resource_DeserializeAsset_def resource_DeserializeArchive_def)
  have ser: "DeserializeAsset resource (AssetSerialize resource a) = Some a"
    "DeserializeArchive resource (ArchiveSerialize resource r) = Some r"
  proof -
    obtain c where a: "a = Asset c" by (cases a)
    obtain d where r: "r = Archive d" by (cases r)
    show "DeserializeAsset resource (AssetSerialize resource a) = Some a"
      unfolding a
      by (cases c) (simp_all add: resource_def resource_DeserializeAsset_def
          deserialize_content_def SigKey_def)
    show "DeserializeArchive resource (ArchiveSerialize resource r) = Some r"
      unfolding r
      by (cases d) (simp_all add: resource_def resource_DeserializeArchive_def
          deserialize_content_def SigKey_def)
  qed
  show ?thesis
    using x1 [of objmap x] x2 [of objmap y] x2 [of "Mappable resource m" y]
      x1 [of "AssetSerialize resource a" a] x2 [of "ArchiveSerialize resource r" r] ser
    by (auto simp: Let_def split: option.splits)
qed

theorem sniff_order_witness:
  "UnmarshalProperties resource
     (Some [(''location'', Value_StringValue ''a.zip''), (SigKey, Value_StringValue ArchiveSig)])
     default_options
     = Inr [(''location'', NewStringProperty ''a.zip''), (SigKey, NewStringProperty ArchiveSig)] \<and>
   DeserializeArchive resource
     (Mappable resource
        [(''location'', NewStringProperty ''a.zip''), (SigKey, NewStringProperty ArchiveSig)])
     = Some (Archive (Location ''a.zip'')) \<and>
   DeserializeAsset resource
     (Mappable resource
        [(''location'', NewStringProperty ''a.zip''), (SigKey, NewStringProperty ArchiveSig)])
     = None \<and>
   UnmarshalPropertyValue resource
     (Value_StructValue
        (Some [(''location'', Value_StringValue ''a.zip''), (SigKey, Value_StringValue ArchiveSig)]))
     default_options
     = Inr (NewArchiveProperty (Archive (Location ''a.zip'')))"
proof -
  let ?s = "Some [(''location'', Value_StringValue ''a.zip''), (SigKey, Value_StringValue ArchiveSig)]"
  let ?m = "[(''location'', NewStringProperty ''a.zip''), (SigKey, NewStringProperty ArchiveSig)]
    :: (Asset, Archive) PropertyMap"
  have p: "UnmarshalProperties resource ?s default_options = Inr ?m"
    by (simp add: SigKey_def map_keys_def map_index_def default_options_def)
  have r: "DeserializeArchive resource (Mappable resource ?m) = Some (Archive (Location ''a.zip''))"
    by (simp add: resource_def PropertyMap_Mappable_def resource_DeserializeArchive_def
        deserialize_content_def SigKey_def)
  show ?thesis
    using p r
      sniff_order [of resource ?s default_options ?m _ _ "Mappable resource ?m" _
        "Archive (Location ''a.zip'')" ?m]
    by simp
qed

section \<open>The round trip\<close>

lemma update_new: "k \<notin> fst ` set al \<Longrightarrow> AList.update k v al = al @ [(k, v)]"
  by (induction al) auto

lemma marshal_elems_known:
  "(\<And>x. x \<in> set elems \<Longrightarrow> MarshalPropertyValue R x opts = Inr (f x, True)) \<Longrightarrow>
   marshal_elems R opts elems outcome acc = Inr (acc @ map f elems, outcome)"
  by (induction elems arbitrary: outcome acc) auto

lemma marshal_keys_entries:
  assumes "\<And>k v. (k, v) \<in> set es \<Longrightarrow>
      map_index props k NewNullProperty = v \<and> \<not> IsOutput v \<and> \<not> (SkipNulls opts \<and> IsNull v) \<and>
      MarshalPropertyValue R v opts = Inr (f v, True)"
    and "distinct (map fst es)" and "fst ` set result \<inter> fst ` set es = {}"
  shows "marshal_keys R props opts (map fst es) result unk
    = Inr (result @ map (\<lambda>(k, v). (k, f v)) es, unk)"
  using assms
proof (induction es arbitrary: result)
  case Nil
  then show ?case by simp
next
  case (Cons kv es)
  obtain k v where kv: "kv = (k, v)" by (cases kv)
  have h: "map_index props k NewNullProperty = v" "\<not> IsOutput v"
    "\<not> (SkipNulls opts \<and> IsNull v)" "MarshalPropertyValue R v opts = Inr (f v, True)"
    using Cons.prems(1) [of k v] kv by simp_all
  have new: "k \<notin> fst ` set result" using Cons.prems(3) kv by auto
  let ?result = "result @ [(k, f v)]"
  have step: "marshal_keys R props opts (map fst (kv # es)) result unk
      = marshal_keys R props opts (map fst es) ?result unk"
    using h kv update_new [OF new] by (auto simp: Let_def)
  have "marshal_keys R props opts (map fst es) ?result unk
      = Inr (?result @ map (\<lambda>(k, v). (k, f v)) es, unk)"
  proof (rule Cons.IH)
    show "distinct (map fst es)" using Cons.prems(2) by simp
    show "fst ` set ?result \<inter> fst ` set es = {}" using Cons.prems(2,3) kv by auto
  qed (use Cons.prems(1) in auto)
  then show ?case using step kv by simp
qed

lemma map_index_distinct:
  "distinct (map fst m) \<Longrightarrow> (k, v) \<in> set m \<Longrightarrow> map_index m k z = v"
  by (simp add: map_index_def)

lemma plain_not_output: "plain_variants v \<Longrightarrow> \<not> IsOutput v \<and> \<not> IsComputed v"
  by (cases v) simp_all

lemma marshal_wire:
  "plain_variants v \<Longrightarrow> canonical v \<Longrightarrow> \<not> SkipNulls opts \<Longrightarrow>
   MarshalPropertyValue R v opts = Inr (wire v, True)"
proof (induction v)
  case (NewArrayProperty elems)
  have "MarshalPropertyValue R x opts = Inr (wire x, True)" if "x \<in> set elems" for x
    using NewArrayProperty that by (auto simp: list_all_iff)
  then have "marshal_elems R opts elems True [] = Inr ([] @ map wire elems, True)"
    by (rule marshal_elems_known)
  then show ?case by simp
next
  case (NewObjectProperty m)
  have d: "distinct (map fst m)" and s: "sorted (map fst m)"
    using NewObjectProperty.prems(2) by simp_all
  have keys: "StableKeys m = map fst m"
    using s by (simp add: StableKeys_def map_keys_def sorted_sort_id)
  have "marshal_keys R m opts (map fst m) [] None
      = Inr ([] @ map (\<lambda>(k, v). (k, wire v)) m, None)"
  proof (rule marshal_keys_entries)
    fix k v assume kv: "(k, v) \<in> set m"
    then have pv: "plain_variants v" and cv: "canonical v"
      using NewObjectProperty.prems by (auto simp: list_all_iff)
    have "MarshalPropertyValue R v opts = Inr (wire v, True)"
      using NewObjectProperty.IH [of "(k, v)" v] kv pv cv NewObjectProperty.prems(3) by simp
    then show "map_index m k NewNullProperty = v \<and> \<not> IsOutput v \<and>
        \<not> (SkipNulls opts \<and> IsNull v) \<and> MarshalPropertyValue R v opts = Inr (wire v, True)"
      using map_index_distinct [OF d kv] plain_not_output [OF pv] NewObjectProperty.prems(3)
      by simp
  qed (use d in simp_all)
  then show ?case using keys by (simp add: MarshalStruct_def)
qed (simp_all add: MarshalNull_def MarshalString_def)

lemma unmarshal_elems_known:
  "(\<And>x. x \<in> set xs \<Longrightarrow> UnmarshalPropertyValue R (f x) opts = Inr x) \<Longrightarrow> i = length elems \<Longrightarrow>
   unmarshal_elems R opts (map f xs) i elems = Inr (elems @ xs)"
proof (induction xs arbitrary: i elems)
  case Nil
  then show ?case by simp
next
  case (Cons x xs)
  have "unmarshal_elems R opts (map f xs) (Suc i) (elems @ [x]) = Inr ((elems @ [x]) @ xs)"
    using Cons.prems by (intro Cons.IH) simp_all
  then show ?case using Cons.prems by (simp add: Let_def)
qed

lemma unmarshal_keys_entries:
  assumes "\<And>k v. (k, v) \<in> set es \<Longrightarrow>
      UnmarshalPropertyValue R (map_index flds k Value_nil) opts = Inr v \<and>
      \<not> IsComputed v \<and> \<not> (SkipNulls opts \<and> IsNull v)"
    and "distinct (map fst es)" and "fst ` set result \<inter> fst ` set es = {}"
  shows "unmarshal_keys R flds opts (map fst es) result = Inr (result @ es)"
  using assms
proof (induction es arbitrary: result)
  case Nil
  then show ?case by simp
next
  case (Cons kv es)
  obtain k v where kv: "kv = (k, v)" by (cases kv)
  have h: "UnmarshalPropertyValue R (map_index flds k Value_nil) opts = Inr v"
    "\<not> IsComputed v" "\<not> (SkipNulls opts \<and> IsNull v)"
    using Cons.prems(1) [of k v] kv by simp_all
  have new: "k \<notin> fst ` set result" using Cons.prems(3) kv by auto
  let ?result = "result @ [(k, v)]"
  have step: "unmarshal_keys R flds opts (map fst (kv # es)) result
      = unmarshal_keys R flds opts (map fst es) ?result"
    using h kv update_new [OF new] by auto
  have "unmarshal_keys R flds opts (map fst es) ?result = Inr (?result @ es)"
  proof (rule Cons.IH)
    show "distinct (map fst es)" using Cons.prems(2) by simp
    show "fst ` set ?result \<inter> fst ` set es = {}" using Cons.prems(2,3) kv by auto
  qed (use Cons.prems(1) in auto)
  then show ?case using step kv by simp
qed

lemma unmarshal_wire:
  "plain_variants v \<Longrightarrow> canonical v \<Longrightarrow> unrecognized R v \<Longrightarrow> \<not> SkipNulls opts \<Longrightarrow>
   UnmarshalPropertyValue R (wire v) opts = Inr v"
proof (induction v)
  case (NewArrayProperty elems)
  have "UnmarshalPropertyValue R (wire x) opts = Inr x" if "x \<in> set elems" for x
    using NewArrayProperty that by (auto simp: list_all_iff)
  then have "unmarshal_elems R opts (map wire elems) 0 [] = Inr ([] @ elems)"
    using unmarshal_elems_known [of elems R wire opts 0 "[]"] by simp
  then show ?case by simp
next
  case (NewObjectProperty m)
  let ?flds = "map (\<lambda>(k, v). (k, wire v)) m"
  have fst: "map fst ?flds = map fst m" by (induction m) auto
  have d: "distinct (map fst m)" and s: "sorted (map fst m)"
    using NewObjectProperty.prems(2) by simp_all
  have d': "distinct (map fst ?flds)" unfolding fst by (rule d)
  have "sort (map fst ?flds) = map fst m"
    unfolding fst using s by (rule sorted_sort_id)
  then have keys: "sort (map_keys ?flds) = map fst m"
    by (simp only: map_keys_def)
  have "unmarshal_keys R ?flds opts (map fst m) [] = Inr ([] @ m)"
  proof (rule unmarshal_keys_entries)
    fix k v assume kv: "(k, v) \<in> set m"
    then have pv: "plain_variants v" and cv: "canonical v" and uv: "unrecognized R v"
      using NewObjectProperty.prems by (auto simp: list_all_iff)
    have u: "UnmarshalPropertyValue R (wire v) opts = Inr v"
      using NewObjectProperty.IH [of "(k, v)" v] kv pv cv uv NewObjectProperty.prems(4) by simp
    have "(k, wire v) \<in> set ?flds" using kv by force
    then have "map_index ?flds k Value_nil = wire v"
      by (rule map_index_distinct [OF d'])
    then show "UnmarshalPropertyValue R (map_index ?flds k Value_nil) opts = Inr v \<and>
        \<not> IsComputed v \<and> \<not> (SkipNulls opts \<and> IsNull v)"
      using u plain_not_output [OF pv] NewObjectProperty.prems(4) by simp
  qed (use d in simp_all)
  then have "UnmarshalProperties R (Some ?flds) opts = Inr m" using keys by simp
  then show ?case using NewObjectProperty.prems(3) by simp
qed simp_all

lemma plain_variants_NewPropertyValue:
  "plain_variants (NewPropertyValue p :: ('a, 'r) PropertyValue)"
  by (induction p) (auto simp: list_all_iff)

lemma serialized_object_decodes_as_asset:
  assumes "MarshalAsset R a opts = Inr (w, known)"
    and "UnmarshalPropertyValue R w opts = Inr (NewAssetProperty a)"
  shows "plain_variants (NewObjectProperty (NewPropertyMapFromMap (AssetSerialize R a))
      :: ('a, 'r) PropertyValue) \<and>
    MarshalPropertyValue R (NewObjectProperty (NewPropertyMapFromMap (AssetSerialize R a))) opts
      = Inr (w, known) \<and>
    UnmarshalPropertyValue R w opts
      \<noteq> Inr (NewObjectProperty (NewPropertyMapFromMap (AssetSerialize R a)))"
proof -
  have "plain_variants (NewPropertyValue (PlainMap (AssetSerialize R a)) :: ('a, 'r) PropertyValue)"
    by (rule plain_variants_NewPropertyValue)
  then show ?thesis using assms by (simp add: NewPropertyMapFromMap_def)
qed

text \<open>
  Claim C1, as amended. For every property value built only from the null, bool, number,
  string, array and object variants in which no nested object is taken for an asset or an
  archive by the recognizers, marshaling without \<^verbatim>\<open>SkipNulls\<close> (as the default options do)
  reports the value as known, and unmarshaling the wire form gives the value back. The
  value is its canonical representative, so the equality is that of Go values with maps
  compared as maps; numbers are compared as bit patterns. The counterexample is an object
  that has the fields of a serialized asset: it comes back as that asset, as
  \<open>serialized_object_decodes_as_asset\<close> shows for any codec that recognizes what it
  serializes.
\<close>

theorem round_trip:
  assumes "plain_variants v" and "canonical v" and "unrecognized R v" and "\<not> SkipNulls opts"
  shows "\<exists>w. MarshalPropertyValue R v opts = Inr (w, True) \<and>
    UnmarshalPropertyValue R w opts = Inr v"
  using marshal_wire [OF assms(1,2,4)] unmarshal_wire [OF assms] by blast

theorem round_trip_counterexample:
  "plain_variants (NewObjectProperty
       [(''inline'', NewStringProperty ''hi''), (SigKey, NewStringProperty AssetSig)]
     :: (Asset, Archive) PropertyValue) \<and>
   MarshalPropertyValue resource
     (NewObjectProperty [(''inline'', NewStringProperty ''hi''), (SigKey, NewStringProperty AssetSig)])
     default_options
     = Inr (Value_StructValue
         (Some [(''inline'', Value_StringValue ''hi''), (SigKey, Value_StringValue AssetSig)]), True) \<and>
   UnmarshalPropertyValue resource
     (Value_StructValue
         (Some [(''inline'', Value_StringValue ''hi''), (SigKey, Value_StringValue AssetSig)]))
     default_options
     = Inr (NewAssetProperty (Asset (Inline ''hi''))) \<and>
   NewAssetProperty (Asset (Inline ''hi''))
     \<noteq> NewObjectProperty
         [(''inline'', NewStringProperty ''hi''), (SigKey, NewStringProperty AssetSig)]"
  by (simp add: SigKey_def AssetSig_def StableKeys_def map_keys_def map_index_def
      MarshalString_def MarshalStruct_def default_options_def resource_def
      PropertyMap_Mappable_def resource_DeserializeAsset_def deserialize_content_def)

theorem round_trip_witness:
  "\<exists>w. MarshalPropertyValue resource
       (NewObjectProperty
          [(''a'', NewNullProperty),
           (''b'', NewArrayProperty [NewStringProperty ''x'', NewBoolProperty True])])
       default_options = Inr (w, True) \<and>
     UnmarshalPropertyValue resource w default_options
       = Inr (NewObjectProperty
          [(''a'', NewNullProperty),
           (''b'', NewArrayProperty [NewStringProperty ''x'', NewBoolProperty True])])"
proof -
  let ?v = "NewObjectProperty
          [(''a'', NewNullProperty),
           (''b'', NewArrayProperty [NewStringProperty ''x'', NewBoolProperty True])]
     :: (Asset, Archive) PropertyValue"
  have p: "plain_variants ?v" by simp
  have c: "canonical ?v" by simp
  have u: "unrecognized resource ?v"
    by (simp add: resource_def PropertyMap_Mappable_def resource_DeserializeAsset_def
        resource_DeserializeArchive_def deserialize_content_def SigKey_def)
  have o: "\<not> SkipNulls default_options" by (simp add: default_options_def)
  show ?thesis by (rule round_trip [OF p c u o])
qed

section \<open>Properties of the document parser\<close>

text \<open>
  Claim C9. When a marshaler is registered for the extension of the document and its
  \<^verbatim>\<open>Unmarshal\<close> fails on the body, \<open>Parse\<close> returns nil, does not end the process, and has
  reported one more error to the sink: the illegal-syntax diagnostic with the document
  attached and the error of the marshaler.
\<close>

theorem parse_reports_syntax_error:
  assumes "Marshalers (Ext doc) = Some marshaler" and "marshaler (Body doc) = Inl err"
  shows "Parse Ext Marshalers doc sink
      = (Return None, sink @ [(IllegalMufileSyntax (Some doc), err)]) \<and>
    fst (Parse Ext Marshalers doc sink) \<noteq> ProcessExit \<and>
    Errors (snd (Parse Ext Marshalers doc sink)) = Suc (Errors sink)"
  using assms by (simp add: Parse_def Errorf_def Errors_def)

theorem parse_reports_syntax_error_witness:
  "Parse file_ext json_only \<lparr> File = ''Mu.json'', Body = ''{'' \<rparr> []
     = (Return None,
        [(IllegalMufileSyntax (Some \<lparr> File = ''Mu.json'', Body = ''{'' \<rparr>),
          ''unexpected end of input'')])"
proof -
  let ?doc = "\<lparr> File = ''Mu.json'', Body = ''{'' \<rparr>"
  have a: "json_only (file_ext ?doc) = Some json_unmarshal"
    by (simp add: json_only_def file_ext_def)
  have b: "json_unmarshal (Body ?doc) = Inl ''unexpected end of input''"
    by (simp add: json_unmarshal_def)
  show ?thesis
    using parse_reports_syntax_error [of json_only file_ext ?doc json_unmarshal
        "''unexpected end of input''" "[]", OF a b]
    by simp
qed

end
